theory Spec2Isabelle
  imports Main
begin

section \<open>The response cache of \<open>services/postgresql_service.py\<close>\<close>

text \<open>
  The table \<open>response_cache\<close> is a list of rows. Timestamps are integers (ticks of the
  database clock); \<open>CURRENT_TIMESTAMP\<close> is an argument of every statement, since each
  statement of the service runs in its own implicit transaction. The payload is opaque.
  The digest is a parameter \<open>sha\<close> (SHA-256 is not unfolded); \<open>str.lower\<close> is modelled on
  ASCII letters.
\<close>

record ('h, 'p) cache_row =
  query_hash :: 'h
  query_text :: string
  response_data :: 'p
  created_at :: int
  last_accessed :: int
  expires_at :: int
  hit_count :: int

type_synonym ('h, 'p) response_cache = "('h, 'p) cache_row list"

text \<open>
  The \<open>INSERT\<close> of \<open>cache_response\<close> names five columns; \<open>hit_count\<close> and \<open>expires_at\<close>
  are filled by the column defaults of the table declaration, which is not part of the
  sources. The declaration is therefore a parameter of the model.
\<close>

record table_decl =
  default_hit_count :: int
  default_expires_at :: "int \<Rightarrow> int"

definition spec_table_decl :: "int \<Rightarrow> table_decl" where
  \<comment> \<open>Modelled from the spec: the declaration of table \<open>response_cache\<close> (its column
      defaults) is missing from the sources. The specification says a new row is inserted
      "with \<open>hit_count = 1\<close>" and "a freshly computed \<open>expires_at\<close>" that is "derived at
      write time from a fixed TTL policy"; \<open>ttl\<close> is that fixed duration.\<close>
  "spec_table_decl ttl = \<lparr> default_hit_count = 1, default_expires_at = (\<lambda>now. now + ttl) \<rparr>"

definition lower_char :: "char \<Rightarrow> char" where
  "lower_char c =
     (if 65 \<le> (of_char c :: nat) \<and> (of_char c :: nat) \<le> 90
      then char_of ((of_char c :: nat) + 32) else c)"

definition lower :: "string \<Rightarrow> string" where
  "lower s = map lower_char s"

definition hash_query :: "(string \<Rightarrow> 'h) \<Rightarrow> string \<Rightarrow> 'h" where
  \<comment> \<open>\<open>hashlib.sha256(query.lower().encode()).hexdigest()\<close>\<close>
  "hash_query sha query = sha (lower query)"

subsection \<open>The three SQL statements\<close>

definition select_response_data ::
  "('h, 'p) response_cache \<Rightarrow> 'h \<Rightarrow> int \<Rightarrow> 'p option" where
  \<comment> \<open>\<open>SELECT response_data FROM response_cache WHERE query_hash = $1 AND
      expires_at > CURRENT_TIMESTAMP\<close>, first row (\<open>fetchrow\<close>)\<close>
  "select_response_data tbl h now =
     map_option response_data (find (\<lambda>r. query_hash r = h \<and> expires_at r > now) tbl)"

definition touch_row :: "int \<Rightarrow> ('h, 'p) cache_row \<Rightarrow> ('h, 'p) cache_row" where
  "touch_row now r = r\<lparr> hit_count := hit_count r + 1, last_accessed := now \<rparr>"

definition update_hit_count ::
  "('h, 'p) response_cache \<Rightarrow> 'h \<Rightarrow> int \<Rightarrow> ('h, 'p) response_cache" where
  \<comment> \<open>\<open>UPDATE response_cache SET hit_count = hit_count + 1, last_accessed =
      CURRENT_TIMESTAMP WHERE query_hash = $1\<close>\<close>
  "update_hit_count tbl h now =
     map (\<lambda>r. if query_hash r = h then touch_row now r else r) tbl"

definition overwrite_row :: "'p \<Rightarrow> int \<Rightarrow> ('h, 'p) cache_row \<Rightarrow> ('h, 'p) cache_row" where
  \<comment> \<open>the \<open>DO UPDATE SET\<close> list: \<open>response_data\<close>, \<open>hit_count\<close>, \<open>last_accessed\<close>\<close>
  "overwrite_row p now r =
     r\<lparr> response_data := p, hit_count := hit_count r + 1, last_accessed := now \<rparr>"

definition new_row ::
  "table_decl \<Rightarrow> 'h \<Rightarrow> string \<Rightarrow> 'p \<Rightarrow> int \<Rightarrow> ('h, 'p) cache_row" where
  \<comment> \<open>the \<open>VALUES\<close> list, the two unnamed columns taken from the column defaults\<close>
  "new_row decl h q p now =
     \<lparr> query_hash = h, query_text = q, response_data = p, created_at = now,
       last_accessed = now, expires_at = default_expires_at decl now,
       hit_count = default_hit_count decl \<rparr>"

definition upsert_response ::
  "table_decl \<Rightarrow> ('h, 'p) response_cache \<Rightarrow> 'h \<Rightarrow> string \<Rightarrow> 'p \<Rightarrow> int
     \<Rightarrow> ('h, 'p) response_cache" where
  \<comment> \<open>\<open>INSERT INTO response_cache (...) VALUES (...) ON CONFLICT (query_hash) DO UPDATE
      SET ...\<close>\<close>
  "upsert_response decl tbl h q p now =
     (if \<exists>r \<in> set tbl. query_hash r = h
      then map (\<lambda>r. if query_hash r = h then overwrite_row p now r else r) tbl
      else tbl @ [new_row decl h q p now])"

subsection \<open>Store failures and the two service methods\<close>

datatype db_error = ConnectionRefused | Timeout | TooManyConnections | OtherException string

text \<open>
  What the store does to one call that is answered: for each interaction, the exception it
  raises, if any. \<open>acquire_err\<close> covers \<open>initialize_pool\<close> and \<open>pool.acquire\<close>,
  \<open>fetch_err\<close> the \<open>fetchrow\<close>, \<open>execute_err\<close> the \<open>execute\<close>, \<open>release_err\<close> the
  \<open>pool.release\<close> of the \<open>finally\<close> clause of \<open>get_connection\<close>. An exhausted pool
  raises nothing; it is a state of the pool, treated further below.
\<close>

record store_faults =
  acquire_err :: "db_error option"
  fetch_err :: "db_error option"
  execute_err :: "db_error option"
  release_err :: "db_error option"

definition no_faults :: store_faults where
  "no_faults = \<lparr> acquire_err = None, fetch_err = None, execute_err = None, release_err = None \<rparr>"

definition release_conn :: "store_faults \<Rightarrow> db_error + 'a \<Rightarrow> db_error + 'a" where
  \<comment> \<open>leaving \<open>async with self.get_connection()\<close>: the release runs on every exit, and an
      exception it raises replaces the pending result or exception\<close>
  "release_conn flt res = (case release_err flt of Some e \<Rightarrow> Inl e | None \<Rightarrow> res)"

definition get_cached_response_body ::
  "(string \<Rightarrow> 'h) \<Rightarrow> store_faults \<Rightarrow> ('h, 'p) response_cache \<Rightarrow> string \<Rightarrow> int \<Rightarrow> int
     \<Rightarrow> (db_error + 'p option) \<times> ('h, 'p) response_cache" where
  \<comment> \<open>the \<open>try\<close> block; \<open>t1\<close> is the clock at the \<open>SELECT\<close>, \<open>t2\<close> at the \<open>UPDATE\<close>\<close>
  "get_cached_response_body sha flt tbl query t1 t2 =
     (let h = hash_query sha query in
      case acquire_err flt of
        Some e \<Rightarrow> (Inl e, tbl)
      | None \<Rightarrow>
          (case fetch_err flt of
             Some e \<Rightarrow> (release_conn flt (Inl e), tbl)
           | None \<Rightarrow>
               (case select_response_data tbl h t1 of
                  Some p \<Rightarrow>
                    (case execute_err flt of
                       Some e \<Rightarrow> (release_conn flt (Inl e), tbl)
                     | None \<Rightarrow> (release_conn flt (Inr (Some p)), update_hit_count tbl h t2))
                | None \<Rightarrow> (release_conn flt (Inr None), tbl))))"

definition get_cached_response ::
  "(string \<Rightarrow> 'h) \<Rightarrow> store_faults \<Rightarrow> ('h, 'p) response_cache \<Rightarrow> string \<Rightarrow> int \<Rightarrow> int
     \<Rightarrow> (db_error + 'p option) \<times> ('h, 'p) response_cache" where
  \<comment> \<open>\<open>except Exception: return None\<close>; \<open>Inl\<close> would be an exception reaching the caller\<close>
  "get_cached_response sha flt tbl query t1 t2 =
     (case get_cached_response_body sha flt tbl query t1 t2 of
        (Inl e, tbl') \<Rightarrow> (Inr None, tbl')
      | (Inr res, tbl') \<Rightarrow> (Inr res, tbl'))"

definition cache_response_body ::
  "table_decl \<Rightarrow> (string \<Rightarrow> 'h) \<Rightarrow> store_faults \<Rightarrow> ('h, 'p) response_cache \<Rightarrow> string \<Rightarrow> 'p
     \<Rightarrow> int \<Rightarrow> (db_error + bool) \<times> ('h, 'p) response_cache" where
  "cache_response_body decl sha flt tbl query p now =
     (let h = hash_query sha query in
      case acquire_err flt of
        Some e \<Rightarrow> (Inl e, tbl)
      | None \<Rightarrow>
          (case execute_err flt of
             Some e \<Rightarrow> (release_conn flt (Inl e), tbl)
           | None \<Rightarrow> (release_conn flt (Inr True), upsert_response decl tbl h query p now)))"

definition cache_response ::
  "table_decl \<Rightarrow> (string \<Rightarrow> 'h) \<Rightarrow> store_faults \<Rightarrow> ('h, 'p) response_cache \<Rightarrow> string \<Rightarrow> 'p
     \<Rightarrow> int \<Rightarrow> (db_error + bool) \<times> ('h, 'p) response_cache" where
  \<comment> \<open>\<open>except Exception: return False\<close>\<close>
  "cache_response decl sha flt tbl query p now =
     (case cache_response_body decl sha flt tbl query p now of
        (Inl e, tbl') \<Rightarrow> (Inr False, tbl')
      | (Inr ok, tbl') \<Rightarrow> (Inr ok, tbl'))"

text \<open>
  \<open>get_connection\<close> calls \<open>self.pool.acquire()\<close> with no timeout, and \<open>command_timeout\<close>
  bounds statements only. When every connection of the pool is checked out, the call
  waits in \<open>acquire\<close> until one is released; while none is, the method does not return.
  The two methods as their callers see them therefore take the state of the pool, and
  \<open>None\<close> is a call that does not return. A connection that comes free later is the
  first state at a later clock. A pool that cannot be created raises before \<open>acquire\<close> is
  reached.
\<close>

datatype pool_state = ConnectionFree | NoFreeConnection

definition get_cached_response_pooled ::
  "pool_state \<Rightarrow> (string \<Rightarrow> 'h) \<Rightarrow> store_faults \<Rightarrow> ('h, 'p) response_cache \<Rightarrow> string
     \<Rightarrow> int \<Rightarrow> int \<Rightarrow> ((db_error + 'p option) \<times> ('h, 'p) response_cache) option" where
  "get_cached_response_pooled pool sha flt tbl query t1 t2 =
     (case acquire_err flt of
        Some e \<Rightarrow> Some (get_cached_response sha flt tbl query t1 t2)
      | None \<Rightarrow>
          (case pool of
             NoFreeConnection \<Rightarrow> None
           | ConnectionFree \<Rightarrow> Some (get_cached_response sha flt tbl query t1 t2)))"

definition cache_response_pooled ::
  "pool_state \<Rightarrow> table_decl \<Rightarrow> (string \<Rightarrow> 'h) \<Rightarrow> store_faults \<Rightarrow> ('h, 'p) response_cache
     \<Rightarrow> string \<Rightarrow> 'p \<Rightarrow> int \<Rightarrow> ((db_error + bool) \<times> ('h, 'p) response_cache) option" where
  "cache_response_pooled pool decl sha flt tbl query p now =
     (case acquire_err flt of
        Some e \<Rightarrow> Some (cache_response decl sha flt tbl query p now)
      | None \<Rightarrow>
          (case pool of
             NoFreeConnection \<Rightarrow> None
           | ConnectionFree \<Rightarrow> Some (cache_response decl sha flt tbl query p now)))"

definition read_fault :: "store_faults \<Rightarrow> bool" where
  \<comment> \<open>some interaction of \<open>get_cached_response\<close> is scripted to fail\<close>
  "read_fault flt \<longleftrightarrow>
     acquire_err flt \<noteq> None \<or> fetch_err flt \<noteq> None \<or> execute_err flt \<noteq> None
       \<or> release_err flt \<noteq> None"

definition write_fault :: "store_faults \<Rightarrow> bool" where
  \<comment> \<open>some interaction of \<open>cache_response\<close> (which sends no \<open>fetchrow\<close>) is scripted to fail\<close>
  "write_fault flt \<longleftrightarrow>
     acquire_err flt \<noteq> None \<or> execute_err flt \<noteq> None \<or> release_err flt \<noteq> None"

text \<open>The row stored under a hash, and the uniqueness that \<open>ON CONFLICT (query_hash)\<close> needs.\<close>

definition row_of :: "('h, 'p) response_cache \<Rightarrow> 'h \<Rightarrow> ('h, 'p) cache_row option" where
  "row_of tbl h = find (\<lambda>r. query_hash r = h) tbl"

definition rows_for :: "('h, 'p) response_cache \<Rightarrow> 'h \<Rightarrow> nat" where
  "rows_for tbl h = length (filter (\<lambda>r. query_hash r = h) tbl)"

definition unique_hashes :: "('h, 'p) response_cache \<Rightarrow> bool" where
  "unique_hashes tbl \<longleftrightarrow> distinct (map query_hash tbl)"

subsection \<open>Concurrent calls as interleavings of statements\<close>






section \<open>The chunk cache of \<open>auth_and_cache.py\<close>\<close>

text \<open>
  \<open>ContextCache\<close> holds a dict from digests to texts and a list of (embedding, text)
  pairs, each mirrored in a pickle file. The embedding model, the digest and the
  floating-point test \<open>np.dot(e, emb) / (norm e * norm emb) >= self.sem_threshold\<close> are
  deterministic functions fixed at construction; they are parameters, so nothing below
  depends on floating-point arithmetic. The embedding call and the file writes are taken
  to succeed. The effects visible from outside (the call of the model and the line printed)
  are returned as a trace.
\<close>

record 'e cache_config =
  digest :: "string \<Rightarrow> string"
  encode :: "string \<Rightarrow> 'e"
  sim_reaches_threshold :: "'e \<Rightarrow> 'e \<Rightarrow> bool"

record 'e ContextCache =
  exact_cache :: "string \<rightharpoonup> string"
  sem_cache :: "('e \<times> string) list"
  exact_file :: "(string \<rightharpoonup> string) option"
  sem_file :: "('e \<times> string) list option"

datatype cache_event = Encode string | PrintExactHit | PrintSemanticHit | PrintMiss

definition hash_text :: "'e cache_config \<Rightarrow> string \<Rightarrow> string" where
  \<comment> \<open>\<open>_hash\<close>: \<open>hashlib.sha256(text.encode("utf-8")).hexdigest()\<close>\<close>
  "hash_text cfg text = digest cfg text"

fun sem_scan :: "('e \<Rightarrow> 'e \<Rightarrow> bool) \<Rightarrow> 'e \<Rightarrow> ('e \<times> string) list \<Rightarrow> string option" where
  \<comment> \<open>the \<open>for e, txt in self.sem_cache\<close> loop: the first entry whose similarity reaches
      the threshold\<close>
  "sem_scan reaches emb [] = None"
| "sem_scan reaches emb ((e, txt) # rest) =
     (if reaches e emb then Some txt else sem_scan reaches emb rest)"

definition save_exact :: "'e ContextCache \<Rightarrow> 'e ContextCache" where
  \<comment> \<open>\<open>_save_exact\<close>: the file now holds the dict as it is\<close>
  "save_exact s = s\<lparr> exact_file := Some (exact_cache s) \<rparr>"

definition save_sem :: "'e ContextCache \<Rightarrow> 'e ContextCache" where
  \<comment> \<open>\<open>_save_sem\<close>\<close>
  "save_sem s = s\<lparr> sem_file := Some (sem_cache s) \<rparr>"

definition get_chunk ::
  "'e cache_config \<Rightarrow> 'e ContextCache \<Rightarrow> string
     \<Rightarrow> string \<times> cache_event list \<times> 'e ContextCache" where
  "get_chunk cfg s chunk =
     (let h = hash_text cfg chunk in
      case exact_cache s h of
        Some txt \<Rightarrow> (txt, [PrintExactHit], s)
      | None \<Rightarrow>
          (let emb = encode cfg chunk in
           case sem_scan (sim_reaches_threshold cfg) emb (sem_cache s) of
             Some txt \<Rightarrow> (txt, [Encode chunk, PrintSemanticHit], s)
           | None \<Rightarrow>
               (let s1 = s\<lparr> exact_cache := (exact_cache s)(h \<mapsto> chunk) \<rparr>;
                    s2 = s1\<lparr> sem_cache := sem_cache s1 @ [(emb, chunk)] \<rparr>
                in (chunk, [Encode chunk, PrintMiss], save_sem (save_exact s2)))))"

definition clear_caches :: "'e ContextCache \<Rightarrow> 'e ContextCache" where
  "clear_caches s =
     save_sem (save_exact (s\<lparr> exact_cache := Map.empty, sem_cache := [] \<rparr>))"

datatype cache_op = GetChunk string | ClearCaches

fun apply_op :: "'e cache_config \<Rightarrow> 'e ContextCache \<Rightarrow> cache_op \<Rightarrow> 'e ContextCache" where
  "apply_op cfg s (GetChunk c) = snd (snd (get_chunk cfg s c))"
| "apply_op cfg s ClearCaches = clear_caches s"

definition run_ops :: "'e cache_config \<Rightarrow> 'e ContextCache \<Rightarrow> cache_op list \<Rightarrow> 'e ContextCache" where
  "run_ops cfg s ops = foldl (apply_op cfg) s ops"

section \<open>The synchronous bridge of \<open>services/database_wrapper.py\<close>\<close>

text \<open>
  \<open>_run_async\<close> tests \<open>self.loop.is_running()\<close>, where \<open>self.loop\<close> is the loop the
  wrapper stored when it was constructed (\<open>_ensure_loop\<close>). Whether a loop is running in
  the calling thread is a separate fact of the interpreter: \<open>loop.run_until_complete\<close>
  first checks (\<open>_check_closed\<close>, then \<open>_check_running\<close> of asyncio's base event loop)
  that the loop is not closed, that the loop itself is not running and that no loop at all
  is running in the calling thread, and raises \<open>RuntimeError\<close> otherwise, before the
  coroutine has run. A closed loop is not running. A worker thread of the pool
  starts with no running loop, so \<open>asyncio.run\<close> there creates a loop of its own. A
  coroutine is given by its outcome on the loop that drives it; \<open>Raised\<close> is a failure of
  the coroutine itself.
\<close>

datatype 'x exn = RuntimeError string | Raised 'x

datatype run_site = OnStoredLoop | OnWorkerLoop

datatype bridge_event = RunUntilComplete | SubmitToWorker | WorkerAsyncioRun | BlockOnFuture

record caller_context =
  stored_loop_running :: bool
  stored_loop_closed :: bool
  thread_has_running_loop :: bool

type_synonym ('x, 'a) coroutine = "run_site \<Rightarrow> 'x exn + 'a"

definition run_until_complete :: "caller_context \<Rightarrow> ('x, 'a) coroutine \<Rightarrow> 'x exn + 'a" where
  \<comment> \<open>\<open>self.loop.run_until_complete(coro)\<close> on the calling thread\<close>
  "run_until_complete ctx coro =
     (if stored_loop_closed ctx then Inl (RuntimeError ''Event loop is closed'')
      else if stored_loop_running ctx
      then Inl (RuntimeError ''This event loop is already running'')
      else if thread_has_running_loop ctx
      then Inl (RuntimeError ''Cannot run the event loop while another loop is running'')
      else coro OnStoredLoop)"

definition asyncio_run_in_worker :: "('x, 'a) coroutine \<Rightarrow> 'x exn + 'a" where
  \<comment> \<open>\<open>asyncio.run(coro)\<close> in a fresh pool thread, which has no running loop\<close>
  "asyncio_run_in_worker coro = coro OnWorkerLoop"

definition future_result :: "'x exn + 'a \<Rightarrow> 'x exn + 'a" where
  \<comment> \<open>\<open>future.result()\<close>: the value, or the captured exception raised again\<close>
  "future_result outcome = outcome"

definition run_async ::
  "caller_context \<Rightarrow> ('x, 'a) coroutine \<Rightarrow> ('x exn + 'a) \<times> bridge_event list" where
  \<comment> \<open>\<open>DatabaseWrapper._run_async\<close>, with the path taken as a trace\<close>
  "run_async ctx coro =
     (if \<not> stored_loop_running ctx
      then (run_until_complete ctx coro, [RunUntilComplete])
      else (future_result (asyncio_run_in_worker coro),
            [SubmitToWorker, WorkerAsyncioRun, BlockOnFuture]))"

section \<open>Auxiliary notions for the statements below\<close>

definition keys_are_hashes :: "'e cache_config \<Rightarrow> 'e ContextCache \<Rightarrow> bool" where
  \<comment> \<open>every text of the exact index sits under its own digest\<close>
  "keys_are_hashes cfg s \<longleftrightarrow> (\<forall>k v. exact_cache s k = Some v \<longrightarrow> hash_text cfg v = k)"

definition unexpired :: "('h, 'p) response_cache \<Rightarrow> 'h \<Rightarrow> int \<Rightarrow> bool" where
  "unexpired tbl h now =
     (case row_of tbl h of None \<Rightarrow> False | Some r \<Rightarrow> now < expires_at r)"







text \<open>
  Sample data for the closed instances: the row that \<open>cache_response\<close> inserts for the
  query \<open>What is X\<close> at clock 0 under a TTL of 10 ticks, a toy embedding (the length of
  the text, two embeddings being similar when equal) with the identity as digest, and a
  coroutine.
\<close>

definition stale_row :: "(string, nat) cache_row" where
  "stale_row = \<lparr> query_hash = ''what is x'', query_text = ''What is X'', response_data = 5,
      created_at = 0, last_accessed = 0, expires_at = 10, hit_count = 1 \<rparr>"

definition empty_cache :: "nat ContextCache" where
  "empty_cache = \<lparr> exact_cache = Map.empty, sem_cache = [], exact_file = None, sem_file = None \<rparr>"

definition toy_config :: "nat cache_config" where
  "toy_config = \<lparr> digest = id, encode = length, sim_reaches_threshold = (=) \<rparr>"

definition warm_cache :: "nat ContextCache" where
  "warm_cache = run_ops toy_config empty_cache [GetChunk ''ab'']"

definition sample_coroutine :: "(string, nat) coroutine" where
  "sample_coroutine site = (case site of OnStoredLoop \<Rightarrow> Inr 41 | OnWorkerLoop \<Rightarrow> Inr 42)"

section \<open>Properties of the response cache\<close>

subsection \<open>Rows and statements\<close>

lemma row_of_Nil [simp]: "row_of [] h = None"
  by (simp add: row_of_def)

lemma row_of_Cons:
  "row_of (r # tbl) h = (if query_hash r = h then Some r else row_of tbl h)"
  by (simp add: row_of_def)

lemma row_of_None_iff: "row_of tbl h = None \<longleftrightarrow> h \<notin> query_hash ` set tbl"
  by (induction tbl) (auto simp: row_of_Cons)

lemma row_of_SomeD: "row_of tbl h = Some r \<Longrightarrow> r \<in> set tbl \<and> query_hash r = h"
  by (induction tbl) (auto simp: row_of_Cons split: if_splits)

lemma select_absent:
  "row_of tbl h = None \<Longrightarrow> select_response_data tbl h now = None"
  by (induction tbl) (auto simp: select_response_data_def row_of_Cons split: if_splits)

lemma select_present:
  "unique_hashes tbl \<Longrightarrow> row_of tbl h = Some r \<Longrightarrow>
   select_response_data tbl h now = (if now < expires_at r then Some (response_data r) else None)"
proof (induction tbl)
  case Nil
  then show ?case by simp
next
  case (Cons x tbl)
  show ?case
  proof (cases "query_hash x = h")
    case True
    with Cons.prems have "x = r" and "row_of tbl h = None"
      by (auto simp: row_of_Cons unique_hashes_def row_of_None_iff)
    with True select_absent [of tbl h now] show ?thesis
      by (auto simp: select_response_data_def)
  next
    case False
    with Cons show ?thesis
      by (auto simp: select_response_data_def row_of_Cons unique_hashes_def)
  qed
qed

lemma query_hash_touch_row [simp]: "query_hash (touch_row now r) = query_hash r"
  by (simp add: touch_row_def)

lemma query_hash_overwrite_row [simp]: "query_hash (overwrite_row p now r) = query_hash r"
  by (simp add: overwrite_row_def)

lemma query_hash_new_row [simp]: "query_hash (new_row decl h q p now) = h"
  by (simp add: new_row_def)

lemma row_of_update_hit_count:
  "row_of (update_hit_count tbl h now) k =
     (if k = h then map_option (touch_row now) (row_of tbl h) else row_of tbl k)"
  by (induction tbl) (auto simp: update_hit_count_def row_of_Cons)

lemma hashes_update_hit_count [simp]:
  "map query_hash (update_hit_count tbl h now) = map query_hash tbl"
  by (induction tbl) (auto simp: update_hit_count_def)


lemma hashes_upsert:
  "map query_hash (upsert_response decl tbl h q p now) =
     (if h \<in> query_hash ` set tbl then map query_hash tbl else map query_hash tbl @ [h])"
  by (auto simp: upsert_response_def)

lemma unique_upsert:
  "unique_hashes tbl \<Longrightarrow> unique_hashes (upsert_response decl tbl h q p now)"
  by (auto simp: unique_hashes_def hashes_upsert)

lemma row_of_map_overwrite:
  "row_of (map (\<lambda>r. if query_hash r = h then overwrite_row p now r else r) tbl) k =
     (if k = h then map_option (overwrite_row p now) (row_of tbl h) else row_of tbl k)"
  by (induction tbl) (auto simp: row_of_Cons)

lemma row_of_append_new:
  "row_of (tbl @ [x]) k =
     (case row_of tbl k of Some r \<Rightarrow> Some r | None \<Rightarrow> if query_hash x = k then Some x else None)"
  by (induction tbl) (auto simp: row_of_Cons)

lemma row_of_upsert:
  "row_of (upsert_response decl tbl h q p now) k =
     (if k = h
      then Some (case row_of tbl h of None \<Rightarrow> new_row decl h q p now
                                     | Some r \<Rightarrow> overwrite_row p now r)
      else row_of tbl k)"
proof (cases "row_of tbl h")
  case None
  then have "\<not> (\<exists>r \<in> set tbl. query_hash r = h)"
    by (auto simp: row_of_None_iff)
  with None show ?thesis
    by (auto simp: upsert_response_def row_of_append_new split: option.splits)
next
  case (Some r)
  then have "\<exists>r \<in> set tbl. query_hash r = h"
    using row_of_SomeD by fastforce
  with Some show ?thesis
    by (simp add: upsert_response_def row_of_map_overwrite)
qed



lemma select_unexpired:
  "unique_hashes tbl \<Longrightarrow> unexpired tbl h now \<Longrightarrow>
   \<exists>r. row_of tbl h = Some r \<and> select_response_data tbl h now = Some (response_data r)"
  by (auto simp: unexpired_def select_present split: option.splits)

subsection \<open>Expired entries\<close>

text \<open>
  Claim C5. A read of a query whose stored row has \<open>expires_at\<close> at or before the clock of
  the \<open>SELECT\<close> reports absent, whatever the store does otherwise, and leaves the table as
  it was: the counter is not incremented and the expired row stays.
\<close>

theorem expired_entry_reads_absent:
  assumes "unique_hashes tbl" and "row_of tbl (hash_query sha q) = Some r"
    and "expires_at r \<le> t1"
  shows "get_cached_response sha flt tbl q t1 t2 = (Inr None, tbl)"
proof -
  from assms have "select_response_data tbl (hash_query sha q) t1 = None"
    by (simp add: select_present)
  then show ?thesis
    by (simp add: get_cached_response_def get_cached_response_body_def release_conn_def
        Let_def split: option.splits)
qed

theorem expired_entry_reads_absent_witness:
  "unique_hashes [stale_row] \<and> row_of [stale_row] (hash_query id ''What is X'') = Some stale_row
   \<and> expires_at stale_row \<le> 11
   \<and> get_cached_response id no_faults [stale_row] ''What is X'' 11 12 = (Inr None, [stale_row])"
proof -
  have u: "unique_hashes [stale_row]"
    by (simp add: unique_hashes_def)
  have r: "row_of [stale_row] (hash_query id ''What is X'') = Some stale_row"
    by code_simp
  have e: "expires_at stale_row \<le> 11"
    by (simp add: stale_row_def)
  from expired_entry_reads_absent [OF u r e] u r e show ?thesis
    by blast
qed

subsection \<open>Store failures\<close>

lemma raised_failure_is_miss:
  "(\<exists>res. fst (get_cached_response sha flt tbl q t1 t2) = Inr res) \<and>
   (\<exists>ok. fst (cache_response decl sha flt tbl q p now) = Inr ok) \<and>
   (read_fault flt \<longrightarrow> fst (get_cached_response sha flt tbl q t1 t2) = Inr None) \<and>
   (write_fault flt \<longrightarrow> fst (cache_response decl sha flt tbl q p now) = Inr False)"
  by (auto simp: get_cached_response_def cache_response_def get_cached_response_body_def
      cache_response_body_def read_fault_def write_fault_def release_conn_def Let_def
      split: prod.splits sum.splits option.splits)

text \<open>
  Claim C7, as amended. When the pool answers the call, neither method lets an exception
  reach its caller (the result is never \<open>Inl\<close>): if an interaction of the read raises, the
  read returns \<open>None\<close>, and if an interaction of the write raises, the write returns
  \<open>False\<close>. When the pool has no free connection and raises nothing, neither method
  returns: the call waits in \<open>pool.acquire()\<close>.
\<close>

theorem store_failure_is_miss:
  "(\<exists>res tbl'. get_cached_response_pooled ConnectionFree sha flt tbl q t1 t2
        = Some (Inr res, tbl') \<and> (read_fault flt \<longrightarrow> res = None))
   \<and> (\<exists>ok tbl'. cache_response_pooled ConnectionFree decl sha flt tbl q p now
        = Some (Inr ok, tbl') \<and> (write_fault flt \<longrightarrow> ok = False))
   \<and> (acquire_err flt = None \<longrightarrow>
        get_cached_response_pooled NoFreeConnection sha flt tbl q t1 t2 = None
        \<and> cache_response_pooled NoFreeConnection decl sha flt tbl q p now = None)"
proof -
  obtain r1 tbl1 where g: "get_cached_response sha flt tbl q t1 t2 = (r1, tbl1)"
    by (cases "get_cached_response sha flt tbl q t1 t2") auto
  obtain r2 tbl2 where c: "cache_response decl sha flt tbl q p now = (r2, tbl2)"
    by (cases "cache_response decl sha flt tbl q p now") auto
  from raised_failure_is_miss [of sha flt tbl q t1 t2 decl p now] g c
  obtain res ok where r: "r1 = Inr res" "r2 = Inr ok"
      "read_fault flt \<longrightarrow> res = None" "write_fault flt \<longrightarrow> ok = False"
    by auto
  have "get_cached_response_pooled ConnectionFree sha flt tbl q t1 t2 = Some (Inr res, tbl1)"
    using g r(1) by (simp add: get_cached_response_pooled_def split: option.splits)
  moreover have "cache_response_pooled ConnectionFree decl sha flt tbl q p now
      = Some (Inr ok, tbl2)"
    using c r(2) by (simp add: cache_response_pooled_def split: option.splits)
  moreover have "get_cached_response_pooled NoFreeConnection sha flt tbl q t1 t2 = None
        \<and> cache_response_pooled NoFreeConnection decl sha flt tbl q p now = None"
    if "acquire_err flt = None"
    using that by (simp add: get_cached_response_pooled_def cache_response_pooled_def)
  ultimately show ?thesis
    using r(3,4) by blast
qed

theorem store_failure_is_miss_witness:
  "read_fault (no_faults\<lparr> execute_err := Some Timeout \<rparr>)
   \<and> write_fault (no_faults\<lparr> execute_err := Some Timeout \<rparr>)
   \<and> acquire_err (no_faults\<lparr> execute_err := Some Timeout \<rparr>) = None
   \<and> get_cached_response_pooled ConnectionFree id (no_faults\<lparr> execute_err := Some Timeout \<rparr>)
        [stale_row] ''What is X'' 1 2 = Some (Inr None, [stale_row])
   \<and> cache_response_pooled ConnectionFree (spec_table_decl 10) id
        (no_faults\<lparr> execute_err := Some Timeout \<rparr>) [stale_row] ''What is X'' 7 1
        = Some (Inr False, [stale_row])
   \<and> get_cached_response_pooled NoFreeConnection id (no_faults\<lparr> execute_err := Some Timeout \<rparr>)
        [stale_row] ''What is X'' 1 2 = None"
proof -
  have r: "read_fault (no_faults\<lparr> execute_err := Some Timeout \<rparr>)"
    by (simp add: read_fault_def no_faults_def)
  have w: "write_fault (no_faults\<lparr> execute_err := Some Timeout \<rparr>)"
    by (simp add: write_fault_def no_faults_def)
  have a: "acquire_err (no_faults\<lparr> execute_err := Some Timeout \<rparr>) = None"
    by (simp add: no_faults_def)
  have g: "snd (get_cached_response id (no_faults\<lparr> execute_err := Some Timeout \<rparr>)
        [stale_row] ''What is X'' 1 2) = [stale_row]"
    by code_simp
  have c: "snd (cache_response (spec_table_decl 10) id (no_faults\<lparr> execute_err := Some Timeout \<rparr>)
        [stale_row] ''What is X'' 7 1) = [stale_row]"
    by code_simp
  have gp: "get_cached_response_pooled ConnectionFree id (no_faults\<lparr> execute_err := Some Timeout \<rparr>)
        [stale_row] ''What is X'' 1 2
      = Some (get_cached_response id (no_faults\<lparr> execute_err := Some Timeout \<rparr>)
        [stale_row] ''What is X'' 1 2)"
    by (simp add: get_cached_response_pooled_def no_faults_def)
  have cp: "cache_response_pooled ConnectionFree (spec_table_decl 10) id
        (no_faults\<lparr> execute_err := Some Timeout \<rparr>) [stale_row] ''What is X'' 7 1
      = Some (cache_response (spec_table_decl 10) id (no_faults\<lparr> execute_err := Some Timeout \<rparr>)
        [stale_row] ''What is X'' 7 1)"
    by (simp add: cache_response_pooled_def no_faults_def)
  from r w a g c gp cp
    store_failure_is_miss [of id "no_faults\<lparr> execute_err := Some Timeout \<rparr>" "[stale_row]"
      "''What is X''" 1 2 "spec_table_decl 10" 7 1]
  show ?thesis
    by auto
qed

text \<open>
  The claim as stated fails for an exhausted pool: with every connection checked out and no
  exception raised, the read does not return \<open>None\<close> and the write does not return
  \<open>False\<close>; neither returns.
\<close>

theorem exhausted_pool_waits_counterexample:
  "get_cached_response_pooled NoFreeConnection id no_faults [stale_row] ''What is X'' 1 2 = None
   \<and> get_cached_response_pooled NoFreeConnection id no_faults [stale_row] ''What is X'' 1 2
       \<noteq> Some (Inr None, [stale_row])
   \<and> cache_response_pooled NoFreeConnection (spec_table_decl 10) id no_faults [stale_row]
        ''What is X'' 7 1 = None
   \<and> cache_response_pooled NoFreeConnection (spec_table_decl 10) id no_faults [stale_row]
        ''What is X'' 7 1 \<noteq> Some (Inr False, [stale_row])"
  by (simp add: get_cached_response_pooled_def cache_response_pooled_def no_faults_def)

subsection \<open>Write, then read\<close>

lemma cache_response_ok:
  "cache_response decl sha no_faults tbl q p now =
     (Inr True, upsert_response decl tbl (hash_query sha q) q p now)"
  by (simp add: cache_response_def cache_response_body_def no_faults_def release_conn_def)

lemma get_cached_response_ok:
  "get_cached_response sha no_faults tbl q t1 t2 =
     (case select_response_data tbl (hash_query sha q) t1 of
        None \<Rightarrow> (Inr None, tbl)
      | Some p \<Rightarrow> (Inr (Some p), update_hit_count tbl (hash_query sha q) t2))"
  by (simp add: get_cached_response_def get_cached_response_body_def no_faults_def
      release_conn_def split: option.splits)

lemma unexpired_after_write:
  "unexpired (snd (cache_response decl sha no_faults tbl q p t0)) (hash_query sha q) t1 =
     (case row_of tbl (hash_query sha q) of
        None \<Rightarrow> t1 < default_expires_at decl t0
      | Some r \<Rightarrow> t1 < expires_at r)"
  by (simp add: cache_response_ok unexpired_def row_of_upsert new_row_def overwrite_row_def
      split: option.splits)

lemma stale_row_is_written:
  "snd (cache_response (spec_table_decl 10) id no_faults [] ''What is X'' 5 0) = [stale_row]"
  by code_simp

text \<open>
  A write followed by a read of the same query, neither meeting a store failure, returns
  the payload just written whenever the row stored for the query after the write is
  unexpired at the clock of the read's \<open>SELECT\<close>; the write and the read each count once.
\<close>

lemma cache_then_get_roundtrip:
  assumes "unique_hashes tbl"
    and "unexpired (snd (cache_response decl sha no_faults tbl q p t0)) (hash_query sha q) t1"
  shows "fst (cache_response decl sha no_faults tbl q p t0) = Inr True
    \<and> fst (get_cached_response sha no_faults
              (snd (cache_response decl sha no_faults tbl q p t0)) q t1 t2) = Inr (Some p)
    \<and> map_option hit_count
        (row_of (snd (get_cached_response sha no_faults
                       (snd (cache_response decl sha no_faults tbl q p t0)) q t1 t2))
           (hash_query sha q))
        = Some (case row_of tbl (hash_query sha q) of
                  None \<Rightarrow> default_hit_count decl + 1
                | Some r \<Rightarrow> hit_count r + 2)"
proof -
  let ?h = "hash_query sha q"
  let ?tbl1 = "upsert_response decl tbl ?h q p t0"
  have u1: "unique_hashes ?tbl1"
    using assms(1) by (rule unique_upsert)
  have live: "unexpired ?tbl1 ?h t1"
    using assms(2) by (simp add: cache_response_ok)
  have row1: "row_of ?tbl1 ?h = Some (case row_of tbl ?h of None \<Rightarrow> new_row decl ?h q p t0
                                       | Some r \<Rightarrow> overwrite_row p t0 r)"
    by (simp add: row_of_upsert)
  have data1: "response_data (case row_of tbl ?h of None \<Rightarrow> new_row decl ?h q p t0
                                       | Some r \<Rightarrow> overwrite_row p t0 r) = p"
    by (simp add: new_row_def overwrite_row_def split: option.splits)
  from select_unexpired [OF u1 live] row1 data1
  have sel: "select_response_data ?tbl1 ?h t1 = Some p"
    by auto
  have cnt: "map_option hit_count (row_of (update_hit_count ?tbl1 ?h t2) ?h)
      = Some (case row_of tbl ?h of None \<Rightarrow> default_hit_count decl + 1
              | Some r \<Rightarrow> hit_count r + 2)"
    by (simp add: row_of_update_hit_count row1 touch_row_def new_row_def overwrite_row_def
        split: option.splits)
  from sel cnt show ?thesis
    by (simp add: cache_response_ok get_cached_response_ok)
qed

text \<open>
  Claim C1. A write followed at once by a read of the same query is to return the payload
  written. The code does not on a row that has expired: the \<open>ON CONFLICT\<close> branch
  replaces the payload and leaves \<open>expires_at\<close> as it was, where the insert of the same
  statement gets a fresh expiry. Here the row written at clock 0 under a TTL of 10 has
  expired at 10; the write of payload 7 at clock 20 returns \<open>True\<close>, and the read at clock
  21, well within one TTL of the write, returns \<open>None\<close>.
\<close>

theorem write_onto_expired_row_is_unreadable:
  "snd (cache_response (spec_table_decl 10) id no_faults [] ''What is X'' 5 0) = [stale_row]
   \<and> cache_response (spec_table_decl 10) id no_faults [stale_row] ''What is X'' 7 20
       = (Inr True, [stale_row\<lparr> response_data := 7, hit_count := 2, last_accessed := 20 \<rparr>])
   \<and> get_cached_response id no_faults
         [stale_row\<lparr> response_data := 7, hit_count := 2, last_accessed := 20 \<rparr>]
         ''What is X'' 21 22
       = (Inr None, [stale_row\<lparr> response_data := 7, hit_count := 2, last_accessed := 20 \<rparr>])"
  by code_simp

subsection \<open>What a write stores\<close>

lemma insert_takes_column_defaults:
  assumes "row_of tbl (hash_query sha q) = None"
  shows "cache_response decl sha no_faults tbl q p now =
     (Inr True,
      tbl @ [\<lparr> query_hash = hash_query sha q, query_text = q, response_data = p,
               created_at = now, last_accessed = now,
               expires_at = default_expires_at decl now,
               hit_count = default_hit_count decl \<rparr>])"
proof -
  from assms have "\<not> (\<exists>r \<in> set tbl. query_hash r = hash_query sha q)"
    by (force simp: row_of_None_iff)
  then show ?thesis
    by (simp add: cache_response_ok upsert_response_def new_row_def)
qed

text \<open>
  Claim C6. Every write, insert or overwrite, is to derive \<open>expires_at\<close> at write time
  from the TTL. The insert does, through the column default. The overwrite does not: the
  \<open>DO UPDATE SET\<close> list names \<open>response_data\<close>, \<open>hit_count\<close> and \<open>last_accessed\<close> only.
  After the write at clock 20 onto the row that expired at 10, under a TTL of 10, the row
  still expires at 10, where the policy gives 30.
\<close>

theorem overwrite_keeps_expiry:
  "map expires_at
     (snd (cache_response (spec_table_decl 10) id no_faults [stale_row] ''What is X'' 7 20))
     = [10]
   \<and> default_expires_at (spec_table_decl 10) 20 = 30
   \<and> map hit_count
     (snd (cache_response (spec_table_decl 10) id no_faults [stale_row] ''What is X'' 7 20))
     = [2]"
  by code_simp

subsection \<open>Concurrent writes\<close>

lemma rows_for_update_hit_count [simp]:
  "rows_for (update_hit_count tbl h now) k = rows_for tbl k"
  by (induction tbl) (auto simp: rows_for_def update_hit_count_def)









subsection \<open>Concurrent reads\<close>







section \<open>Properties of the chunk cache\<close>

lemma get_chunk_exact:
  "exact_cache s (hash_text cfg c) = Some txt \<Longrightarrow> get_chunk cfg s c = (txt, [PrintExactHit], s)"
  by (simp add: get_chunk_def)

lemma get_chunk_semantic:
  "exact_cache s (hash_text cfg c) = None \<Longrightarrow>
   sem_scan (sim_reaches_threshold cfg) (encode cfg c) (sem_cache s) = Some txt \<Longrightarrow>
   get_chunk cfg s c = (txt, [Encode c, PrintSemanticHit], s)"
  by (simp add: get_chunk_def)

lemma get_chunk_miss:
  "exact_cache s (hash_text cfg c) = None \<Longrightarrow>
   sem_scan (sim_reaches_threshold cfg) (encode cfg c) (sem_cache s) = None \<Longrightarrow>
   get_chunk cfg s c =
     (c, [Encode c, PrintMiss],
      s\<lparr> exact_cache := (exact_cache s)(hash_text cfg c \<mapsto> c),
         sem_cache := sem_cache s @ [(encode cfg c, c)],
         exact_file := Some ((exact_cache s)(hash_text cfg c \<mapsto> c)),
         sem_file := Some (sem_cache s @ [(encode cfg c, c)]) \<rparr>)"
  by (simp add: get_chunk_def save_exact_def save_sem_def Let_def)

lemma get_chunk_cases:
  obtains (exact_hit) t where "exact_cache s (hash_text cfg c) = Some t"
  | (semantic_hit) t where "exact_cache s (hash_text cfg c) = None"
      and "sem_scan (sim_reaches_threshold cfg) (encode cfg c) (sem_cache s) = Some t"
  | (no_hit) "exact_cache s (hash_text cfg c) = None"
      and "sem_scan (sim_reaches_threshold cfg) (encode cfg c) (sem_cache s) = None"
  by (cases "exact_cache s (hash_text cfg c)";
      cases "sem_scan (sim_reaches_threshold cfg) (encode cfg c) (sem_cache s)") auto

lemma warm_cache_fields:
  "exact_cache warm_cache ''ab'' = Some ''ab''" "exact_cache warm_cache ''cd'' = None"
  "sem_cache warm_cache = [(2, ''ab'')]"
  by (simp_all add: warm_cache_def run_ops_def toy_config_def empty_cache_def get_chunk_def
      hash_text_def save_exact_def save_sem_def Let_def)

lemma warm_cache_lookups:
  "get_chunk toy_config warm_cache ''ab'' = (''ab'', [PrintExactHit], warm_cache)"
  "get_chunk toy_config warm_cache ''cd'' = (''ab'', [Encode ''cd'', PrintSemanticHit], warm_cache)"
  by (simp_all add: get_chunk_def hash_text_def warm_cache_fields toy_config_def)

text \<open>
  Claim C2, as amended. Two calls of \<open>get_chunk\<close> on the same chunk in sequence return the
  same text. When the first call is an exact hit or a miss, the second takes the
  exact-match path and computes no embedding. When the first call is a semantic hit, it
  leaves the cache unchanged, and the second call computes the embedding again and is
  again a semantic hit.
\<close>

theorem get_chunk_twice:
  assumes "get_chunk cfg s c = (txt1, ev1, s1)" and "get_chunk cfg s1 c = (txt2, ev2, s2)"
  shows "txt2 = txt1
    \<and> (PrintSemanticHit \<notin> set ev1 \<longrightarrow> ev2 = [PrintExactHit])
    \<and> (PrintSemanticHit \<in> set ev1 \<longrightarrow> ev2 = [Encode c, PrintSemanticHit] \<and> s1 = s \<and> s2 = s)"
proof (cases rule: get_chunk_cases [of s cfg c])
  case (exact_hit t)
  with assms show ?thesis
    by (auto simp: get_chunk_exact)
next
  case (semantic_hit t)
  with assms show ?thesis
    by (auto simp: get_chunk_semantic)
next
  case no_hit
  from assms(1) have s1: "exact_cache s1 (hash_text cfg c) = Some c" "txt1 = c"
      "ev1 = [Encode c, PrintMiss]"
    by (auto simp: get_chunk_miss [OF no_hit])
  with assms(2) show ?thesis
    by (auto simp: get_chunk_exact)
qed

theorem get_chunk_twice_witness:
  "get_chunk toy_config warm_cache ''cd'' = (''ab'', [Encode ''cd'', PrintSemanticHit], warm_cache)
   \<and> PrintSemanticHit \<in> set [Encode ''cd'', PrintSemanticHit]
   \<and> fst (get_chunk toy_config empty_cache ''ab'') = ''ab''
   \<and> PrintSemanticHit \<notin> set (fst (snd (get_chunk toy_config empty_cache ''ab'')))
   \<and> fst (snd (get_chunk toy_config (snd (snd (get_chunk toy_config empty_cache ''ab''))) ''ab''))
       = [PrintExactHit]
   \<and> fst (get_chunk toy_config (snd (snd (get_chunk toy_config empty_cache ''ab''))) ''ab'')
       = ''ab''"
proof -
  have g: "get_chunk toy_config warm_cache ''cd''
      = (''ab'', [Encode ''cd'', PrintSemanticHit], warm_cache)"
    by (rule warm_cache_lookups)
  have m: "PrintSemanticHit \<notin> set (fst (snd (get_chunk toy_config empty_cache ''ab'')))"
      "fst (get_chunk toy_config empty_cache ''ab'') = ''ab''"
    by (simp_all add: get_chunk_def hash_text_def toy_config_def empty_cache_def Let_def)
  have p1: "get_chunk toy_config empty_cache ''ab''
      = (fst (get_chunk toy_config empty_cache ''ab''),
         fst (snd (get_chunk toy_config empty_cache ''ab'')),
         snd (snd (get_chunk toy_config empty_cache ''ab'')))"
    by simp
  have p2: "get_chunk toy_config (snd (snd (get_chunk toy_config empty_cache ''ab''))) ''ab''
      = (fst (get_chunk toy_config (snd (snd (get_chunk toy_config empty_cache ''ab''))) ''ab''),
         fst (snd (get_chunk toy_config (snd (snd (get_chunk toy_config empty_cache ''ab'')))
           ''ab'')),
         snd (snd (get_chunk toy_config (snd (snd (get_chunk toy_config empty_cache ''ab'')))
           ''ab'')))"
    by simp
  from get_chunk_twice [OF g g] get_chunk_twice [OF p1 p2] g m show ?thesis
    by simp
qed

text \<open>
  The claim as stated fails for a chunk that resolves by similarity: from the empty cache,
  \<open>ab\<close> is registered; \<open>cd\<close>, whose embedding is similar, is then looked up twice, and
  the second lookup is not an exact hit but computes the embedding once more.
\<close>

theorem semantic_hit_not_registered_counterexample:
  "fst (snd (get_chunk toy_config
       (snd (snd (get_chunk toy_config (run_ops toy_config empty_cache [GetChunk ''ab'']) ''cd'')))
       ''cd'')) \<noteq> [PrintExactHit]
   \<and> Encode ''cd'' \<in> set (fst (snd (get_chunk toy_config
       (snd (snd (get_chunk toy_config (run_ops toy_config empty_cache [GetChunk ''ab'']) ''cd'')))
       ''cd'')))"
  by code_simp

lemma sem_scan_append:
  "sem_scan reaches emb xs = Some txt \<Longrightarrow> sem_scan reaches emb (xs @ ys) = Some txt"
  by (induction xs) (auto split: if_splits)

lemma run_ops_Nil [simp]: "run_ops cfg s [] = s"
  by (simp add: run_ops_def)

lemma run_ops_Cons [simp]: "run_ops cfg s (x # ops) = run_ops cfg (apply_op cfg s x) ops"
  by (simp add: run_ops_def)

lemma get_chunk_keeps_entries:
  "exact_cache s h = Some t \<Longrightarrow> exact_cache (snd (snd (get_chunk cfg s c))) h = Some t"
  by (cases rule: get_chunk_cases [of s cfg c])
    (auto simp: get_chunk_exact get_chunk_semantic get_chunk_miss)

lemma get_chunk_keys_are_hashes:
  "keys_are_hashes cfg s \<Longrightarrow> keys_are_hashes cfg (snd (snd (get_chunk cfg s c)))"
  by (cases rule: get_chunk_cases [of s cfg c])
    (auto simp: get_chunk_exact get_chunk_semantic get_chunk_miss keys_are_hashes_def)

lemma apply_op_keys_are_hashes:
  "keys_are_hashes cfg s \<Longrightarrow> keys_are_hashes cfg (apply_op cfg s x)"
proof (cases x)
  case (GetChunk c)
  assume "keys_are_hashes cfg s"
  with GetChunk show ?thesis
    by (simp add: get_chunk_keys_are_hashes)
next
  case ClearCaches
  then show ?thesis
    by (simp add: keys_are_hashes_def clear_caches_def save_exact_def save_sem_def)
qed

lemma run_ops_keys_are_hashes:
  "keys_are_hashes cfg s \<Longrightarrow> keys_are_hashes cfg (run_ops cfg s ops)"
  by (induction ops arbitrary: s) (simp_all add: apply_op_keys_are_hashes)

lemma run_ops_keeps_entries:
  "exact_cache s h = Some t \<Longrightarrow> ClearCaches \<notin> set ops \<Longrightarrow>
   exact_cache (run_ops cfg s ops) h = Some t"
proof (induction ops arbitrary: s)
  case Nil
  then show ?case by simp
next
  case (Cons x ops)
  from Cons.prems obtain c where x: "x = GetChunk c"
    by (cases x) auto
  from Cons.prems(1) have "exact_cache (apply_op cfg s x) h = Some t"
    unfolding x by (simp add: get_chunk_keeps_entries)
  with Cons.IH Cons.prems(2) show ?case
    by simp
qed

text \<open>
  Claim C9. The exact index is a dict, which holds at most one text per hash at any moment.
  Across every sequence of \<open>get_chunk\<close> and \<open>clear_caches\<close> calls: a text stored under a
  hash is still the text under that hash at the end unless the sequence contains a
  \<open>clear_caches\<close>; a \<open>clear_caches\<close> removes every entry; and when every text sits under
  its own digest at the start, so it does at the end, whatever was cleared and registered
  again in between.
\<close>

theorem exact_entries_are_immutable:
  "(exact_cache s h = Some t \<longrightarrow>
      exact_cache (run_ops cfg s ops) h = Some t \<or> ClearCaches \<in> set ops)
   \<and> exact_cache (apply_op cfg s ClearCaches) h = None
   \<and> (keys_are_hashes cfg s \<longrightarrow> keys_are_hashes cfg (run_ops cfg s ops))"
  using run_ops_keeps_entries [of s h t ops cfg] run_ops_keys_are_hashes [of cfg s ops]
  by (auto simp: clear_caches_def save_exact_def save_sem_def)

theorem exact_entries_are_immutable_witness:
  "exact_cache warm_cache ''ab'' = Some ''ab''
   \<and> ClearCaches \<notin> set [GetChunk ''cd'', GetChunk ''xyz'']
   \<and> keys_are_hashes toy_config warm_cache
   \<and> exact_cache (run_ops toy_config warm_cache [GetChunk ''cd'', GetChunk ''xyz'']) ''ab''
       = Some ''ab''
   \<and> exact_cache (apply_op toy_config warm_cache ClearCaches) ''ab'' = None
   \<and> keys_are_hashes toy_config
       (run_ops toy_config warm_cache [GetChunk ''cd'', GetChunk ''xyz''])"
proof -
  have e: "exact_cache warm_cache ''ab'' = Some ''ab''"
    by (rule warm_cache_fields)
  have n: "ClearCaches \<notin> set [GetChunk ''cd'', GetChunk ''xyz'']"
    by simp
  have "keys_are_hashes toy_config empty_cache"
    by (simp add: keys_are_hashes_def empty_cache_def)
  then have k: "keys_are_hashes toy_config warm_cache"
    unfolding warm_cache_def by (rule run_ops_keys_are_hashes)
  from exact_entries_are_immutable
      [of warm_cache "''ab''" "''ab''" toy_config "[GetChunk ''cd'', GetChunk ''xyz'']"] e n k
  show ?thesis
    by blast
qed

lemma semantic_hit_step:
  assumes "exact_cache s (hash_text cfg c) = None"
    and "sem_scan (sim_reaches_threshold cfg) (encode cfg c) (sem_cache s) = Some txt"
    and "hash_text cfg c' = hash_text cfg c \<longrightarrow> c' = c"
  shows "exact_cache (snd (snd (get_chunk cfg s c'))) (hash_text cfg c) = None
    \<and> sem_scan (sim_reaches_threshold cfg) (encode cfg c)
          (sem_cache (snd (snd (get_chunk cfg s c')))) = Some txt"
proof (cases rule: get_chunk_cases [of s cfg c'])
  case (exact_hit t)
  with assms show ?thesis
    by (simp add: get_chunk_exact)
next
  case (semantic_hit t)
  with assms show ?thesis
    by (simp add: get_chunk_semantic)
next
  case no_hit
  with assms have "hash_text cfg c' \<noteq> hash_text cfg c"
    by auto
  with assms no_hit show ?thesis
    by (simp add: get_chunk_miss sem_scan_append)
qed

lemma semantic_hit_persists:
  assumes "exact_cache s (hash_text cfg c) = None"
    and "sem_scan (sim_reaches_threshold cfg) (encode cfg c) (sem_cache s) = Some txt"
    and "\<forall>c' \<in> set cs. hash_text cfg c' = hash_text cfg c \<longrightarrow> c' = c"
  shows "exact_cache (run_ops cfg s (map GetChunk cs)) (hash_text cfg c) = None
    \<and> sem_scan (sim_reaches_threshold cfg) (encode cfg c)
          (sem_cache (run_ops cfg s (map GetChunk cs))) = Some txt"
  using assms
proof (induction cs arbitrary: s)
  case Nil
  then show ?case by simp
next
  case (Cons c' cs)
  from Cons.prems have "hash_text cfg c' = hash_text cfg c \<longrightarrow> c' = c"
    by simp
  from semantic_hit_step [OF Cons.prems(1,2) this] Cons.prems(3) Cons.IH show ?case
    by simp
qed

text \<open>
  Claim C10, as amended. When \<open>get_chunk\<close> returns by a hit (it prints no miss), the whole
  cache state, both indexes and both files, is as before. A semantic hit does not register
  the chunk under its own hash, and as long as \<open>clear_caches\<close> is not called every later
  lookup of the chunk, after any number of lookups of chunks that do not collide with its
  hash, computes the embedding again, scans again and returns the same text.
\<close>

theorem hit_leaves_cache_unchanged:
  assumes "get_chunk cfg s c = (txt, evs, s')" and "PrintMiss \<notin> set evs"
  shows "s' = s
    \<and> (PrintSemanticHit \<in> set evs \<longrightarrow>
         exact_cache s' (hash_text cfg c) = None
         \<and> (\<forall>cs. (\<forall>c' \<in> set cs. hash_text cfg c' = hash_text cfg c \<longrightarrow> c' = c) \<longrightarrow>
               get_chunk cfg (run_ops cfg s' (map GetChunk cs)) c =
                 (txt, [Encode c, PrintSemanticHit], run_ops cfg s' (map GetChunk cs))))"
proof (cases rule: get_chunk_cases [of s cfg c])
  case (exact_hit t)
  with assms show ?thesis
    by (auto simp: get_chunk_exact)
next
  case (semantic_hit t)
  with assms(1) have eq: "txt = t" "s' = s"
    by (auto simp: get_chunk_semantic)
  have "get_chunk cfg (run_ops cfg s (map GetChunk cs)) c =
          (t, [Encode c, PrintSemanticHit], run_ops cfg s (map GetChunk cs))"
    if "\<forall>c' \<in> set cs. hash_text cfg c' = hash_text cfg c \<longrightarrow> c' = c" for cs
    using semantic_hit_persists [OF semantic_hit that] by (simp add: get_chunk_semantic)
  with eq semantic_hit show ?thesis
    by simp
next
  case no_hit
  with assms show ?thesis
    by (auto simp: get_chunk_miss)
qed

theorem hit_leaves_cache_unchanged_witness:
  "get_chunk toy_config warm_cache ''cd'' = (''ab'', [Encode ''cd'', PrintSemanticHit], warm_cache)
   \<and> PrintMiss \<notin> set [Encode ''cd'', PrintSemanticHit]
   \<and> PrintSemanticHit \<in> set [Encode ''cd'', PrintSemanticHit]
   \<and> exact_cache warm_cache (hash_text toy_config ''cd'') = None
   \<and> get_chunk toy_config (run_ops toy_config warm_cache (map GetChunk [''xyz'', ''cd''])) ''cd''
       = (''ab'', [Encode ''cd'', PrintSemanticHit],
          run_ops toy_config warm_cache (map GetChunk [''xyz'', ''cd'']))"
proof -
  have g: "get_chunk toy_config warm_cache ''cd''
      = (''ab'', [Encode ''cd'', PrintSemanticHit], warm_cache)"
    by (rule warm_cache_lookups)
  have m: "PrintMiss \<notin> set [Encode ''cd'', PrintSemanticHit]"
    by simp
  have s: "PrintSemanticHit \<in> set [Encode ''cd'', PrintSemanticHit]"
    by simp
  have i: "\<forall>c' \<in> set [''xyz'', ''cd'']. hash_text toy_config c' = hash_text toy_config ''cd''
      \<longrightarrow> c' = ''cd''"
    by (simp add: hash_text_def toy_config_def)
  from hit_leaves_cache_unchanged [OF g m] s i
  have "exact_cache warm_cache (hash_text toy_config ''cd'') = None
    \<and> get_chunk toy_config (run_ops toy_config warm_cache (map GetChunk [''xyz'', ''cd''])) ''cd''
       = (''ab'', [Encode ''cd'', PrintSemanticHit],
          run_ops toy_config warm_cache (map GetChunk [''xyz'', ''cd'']))"
    by blast
  with g m s show ?thesis
    by blast
qed

text \<open>
  The claim as stated fails once the caches are cleared: \<open>cd\<close> resolves by similarity
  against the warm cache; after \<open>clear_caches\<close> the next lookup of \<open>cd\<close> is a miss, which
  registers it under its own hash, and the lookup after that is an exact hit that computes
  no embedding.
\<close>

theorem registered_after_clear_counterexample:
  "fst (snd (get_chunk toy_config warm_cache ''cd'')) = [Encode ''cd'', PrintSemanticHit]
   \<and> fst (snd (get_chunk toy_config
          (run_ops toy_config warm_cache [GetChunk ''cd'', ClearCaches]) ''cd''))
       = [Encode ''cd'', PrintMiss]
   \<and> exact_cache (run_ops toy_config warm_cache [GetChunk ''cd'', ClearCaches, GetChunk ''cd''])
         (hash_text toy_config ''cd'') = Some ''cd''
   \<and> fst (snd (get_chunk toy_config
          (run_ops toy_config warm_cache [GetChunk ''cd'', ClearCaches, GetChunk ''cd'']) ''cd''))
       = [PrintExactHit]"
  by code_simp

section \<open>Properties of the synchronous bridge\<close>

text \<open>
  Where the bridge does what is asked of it: with the stored loop open and idle and no
  loop running in the calling thread, the coroutine is driven by \<open>run_until_complete\<close> on
  the calling thread; with the stored loop running, it is handed to a worker thread and the
  caller blocks on the future. On both paths the outcome of the coroutine, value or
  exception, is the outcome of the call.
\<close>

lemma run_async_paths:
  "(\<not> stored_loop_running ctx \<and> \<not> stored_loop_closed ctx \<and> \<not> thread_has_running_loop ctx
      \<longrightarrow> run_async ctx coro = (coro OnStoredLoop, [RunUntilComplete]))
   \<and> (stored_loop_running ctx \<longrightarrow>
      run_async ctx coro
        = (coro OnWorkerLoop, [SubmitToWorker, WorkerAsyncioRun, BlockOnFuture]))"
  by (simp add: run_async_def run_until_complete_def asyncio_run_in_worker_def
      future_result_def)

text \<open>
  Claim C8. When a scheduler is already running in the calling context, the bridge is to
  hand the operation to a worker thread and return its result; the comment in
  \<open>_run_async\<close> says the same (a loop already running: create a new thread). The guard
  tests the stored loop only. When a loop other than the stored one is running in the
  calling thread, the stored loop is idle, the direct path is taken, and
  \<open>run_until_complete\<close> raises \<open>RuntimeError\<close> without running the coroutine: nothing is
  handed to a worker and the coroutine's result is not returned.
\<close>

theorem foreign_running_loop_takes_direct_path:
  "run_async \<lparr> stored_loop_running = False, stored_loop_closed = False,
               thread_has_running_loop = True \<rparr> sample_coroutine
     = (Inl (RuntimeError ''Cannot run the event loop while another loop is running''),
        [RunUntilComplete])
   \<and> fst (run_async \<lparr> stored_loop_running = False, stored_loop_closed = False,
                      thread_has_running_loop = True \<rparr> sample_coroutine)
       \<noteq> sample_coroutine OnWorkerLoop
   \<and> snd (run_async \<lparr> stored_loop_running = False, stored_loop_closed = False,
                      thread_has_running_loop = True \<rparr> sample_coroutine)
       \<noteq> [SubmitToWorker, WorkerAsyncioRun, BlockOnFuture]"
  by (simp add: run_async_def run_until_complete_def sample_coroutine_def)

end
